theory Spec2Isabelle
  imports Main "HOL-Library.Word" "HOL-Library.Monad_Syntax"
begin

section \<open>The CXXRTL testbench of viterbi top\<close>

text \<open>
  A shallow embedding of \<^verbatim>\<open>viterbi_cxxrtl_tb.cpp\<close>. The testbench reads stimulus
  characters from standard input, writes them to the ports \<^verbatim>\<open>x0\<close> and \<^verbatim>\<open>x1\<close> of the
  design, clocks the design and prints the data output whenever the design flags it valid.

  Standard input is the list of bytes still to be read, standard output the list of bytes
  written so far. Both are passed explicitly.
\<close>

subsection \<open>The design under test\<close>

text \<open>
  The class \<^verbatim>\<open>cxxrtl_design::p_top\<close> is generated from the hardware description and is not
  part of the testbench source. The model keeps the six ports the testbench touches, each a
  bit vector (\<^verbatim>\<open>value<Bits>\<close>) whose width is a type parameter, and one field for all the
  state the design keeps privately. The method \<^verbatim>\<open>step()\<close> is a parameter \<open>step\<close> of every
  function that calls it: an arbitrary total function on the whole object.
\<close>

record (overloaded) ('x0, 'x1, 'd, 'v, 's) p_top =
  p_clk :: "1 word"
  p_sync__tb__clk :: "1 word"
  p_x0 :: "'x0 word"
  p_x1 :: "'x1 word"
  p_data :: "'d word"
  p_data__valid :: "'v word"
  internal :: 's

text \<open>
  Modelled from the spec: \<^verbatim>\<open>value<Bits>::set\<close> belongs to the CXXRTL runtime header, which
  is not among the sources. The specification says that the decoded value is written into
  the target port masked to that port's bit width, so \<open>value_set\<close> keeps the low \<open>Bits\<close>
  bits of its \<^verbatim>\<open>unsigned int\<close> argument.
\<close>

definition value_set :: "32 word \<Rightarrow> 'b::len word" where
  "value_set v = ucast v"

text \<open>
  \<^verbatim>\<open>value<Bits>::get<unsigned int>()\<close> reads a port as an \<^verbatim>\<open>unsigned int\<close>. For a port of at
  most 32 bits this is the port's value.
\<close>

definition value_get :: "'b::len word \<Rightarrow> 32 word" where
  "value_get v = ucast v"

subsection \<open>Standard input and output\<close>

text \<open>
  \<^verbatim>\<open>getchar()\<close> returns the next byte as a value from 0 to 255, or \<^verbatim>\<open>EOF\<close> when no byte is
  left; at the end of the stream every further call returns \<^verbatim>\<open>EOF\<close> again. The C standard
  makes \<^verbatim>\<open>EOF\<close> a negative \<^verbatim>\<open>int\<close>; it is \<open>-1\<close> in the C libraries in use, and the model
  takes that value (the program only compares it with 32, 48 and 97).
\<close>

definition getchar :: "string \<Rightarrow> int \<times> string" where
  "getchar inp = (case inp of [] \<Rightarrow> (- 1, []) | b # rest \<Rightarrow> (of_char b, rest))"

text \<open>\<^verbatim>\<open>std::cout << n\<close> for an unsigned \<open>n\<close> prints its decimal digits.\<close>

fun decimal :: "nat \<Rightarrow> string" where
  "decimal n =
     (if n < 10 then [''0123456789'' ! n]
      else decimal (n div 10) @ [''0123456789'' ! (n mod 10)])"

declare decimal.simps [simp del]

definition endl :: string where
  "endl = [CHR 0x0A]"

subsection \<open>\<^verbatim>\<open>viterbi_clock_and_output\<close>\<close>

text \<open>
  One half-tick: the function takes the design and the level of the external clock, and the
  output written so far; it returns its result 0, the design and the output.
\<close>

definition viterbi_clock_and_output ::
  "(('x0::len, 'x1::len, 'd::len, 'v::len, 's) p_top \<Rightarrow> ('x0, 'x1, 'd, 'v, 's) p_top) \<Rightarrow>
   ('x0, 'x1, 'd, 'v, 's) p_top \<Rightarrow> 1 word \<Rightarrow> string \<Rightarrow>
   int \<times> ('x0, 'x1, 'd, 'v, 's) p_top \<times> string" where
  "viterbi_clock_and_output step dut sync_clk cout =
     (let dut = dut\<lparr>p_clk := sync_clk\<rparr>;
          dut = step dut;
          dut = dut\<lparr>p_sync__tb__clk := 0\<rparr>;
          dut = step dut;
          dut = dut\<lparr>p_sync__tb__clk := 1\<rparr>;
          out_data = value_get (p_data dut);
          out_data_valid = value_get (p_data__valid dut);
          cout = (if out_data_valid = 1 then cout @ decimal (unat out_data) @ endl else cout)
      in (0, dut, cout))"

text \<open>
  The half-tick as the specification words it, for comparison: "each step followed by a DUT
  delta-cycle advance", so a third advance follows the last assignment and the outputs are
  read after it. This is not the program's sequence.
\<close>

definition clock_sequence_stated ::
  "(('x0::len, 'x1::len, 'd::len, 'v::len, 's) p_top \<Rightarrow> ('x0, 'x1, 'd, 'v, 's) p_top) \<Rightarrow>
   ('x0, 'x1, 'd, 'v, 's) p_top \<Rightarrow> 1 word \<Rightarrow> string \<Rightarrow>
   int \<times> ('x0, 'x1, 'd, 'v, 's) p_top \<times> string" where
  "clock_sequence_stated step dut sync_clk cout =
     (let dut = dut\<lparr>p_clk := sync_clk\<rparr>;
          dut = step dut;
          dut = dut\<lparr>p_sync__tb__clk := 0\<rparr>;
          dut = step dut;
          dut = dut\<lparr>p_sync__tb__clk := 1\<rparr>;
          dut = step dut;
          out_data = value_get (p_data dut);
          out_data_valid = value_get (p_data__valid dut);
          cout = (if out_data_valid = 1 then cout @ decimal (unat out_data) @ endl else cout)
      in (0, dut, cout))"

subsection \<open>\<^verbatim>\<open>viterbi_getc_value\<close>\<close>

text \<open>
  The function takes the current value of the port behind \<^verbatim>\<open>val\<close> and the input still to be
  read; it returns its result, the value of the port and the input left. The
  \<^verbatim>\<open>while (1)\<close> loop has no bound, so the function is partial: \<open>None\<close> means that the call
  never returns.
\<close>

partial_function (option) viterbi_getc_value ::
  "'b::len word \<Rightarrow> string \<Rightarrow> (int \<times> 'b word \<times> string) option" where
  "viterbi_getc_value val inp =
     (case getchar inp of (c, inp') \<Rightarrow>
        if c \<ge> 48 \<and> c < 58 then Some (0, value_set (word_of_int (c - 48)), inp')
        else if c \<ge> 97 \<and> c < 123 then Some (0, value_set (word_of_int (c - 97)), inp')
        else if c \<le> 32 then viterbi_getc_value val inp'
        else Some (- 1, val, inp'))"

subsection \<open>\<^verbatim>\<open>main\<close>\<close>

text \<open>
  The state of \<^verbatim>\<open>main\<close>: the design (the program's variable \<^verbatim>\<open>top\<close>, written \<open>dut\<close>
  throughout because \<open>top\<close> is a constant of HOL), the buffer of the \<^verbatim>\<open>vcd_writer\<close> (one entry per call of
  \<^verbatim>\<open>sample\<close>: the time index and the design as it was), the variables \<open>j\<close> and \<open>input\<close>, and
  the two streams. The field \<open>ticks\<close> is not in the program: it counts the completed loop
  bodies, each of which is one full tick. The program's \<open>j\<close> is an \<^verbatim>\<open>int\<close>; the model does not
  bound it (it would take more than \<open>2^30\<close> loop bodies to overflow).
\<close>

record (overloaded) ('x0, 'x1, 'd, 'v, 's) tb =
  dut :: "('x0, 'x1, 'd, 'v, 's) p_top"
  w :: "(int \<times> ('x0, 'x1, 'd, 'v, 's) p_top) list"
  j :: int
  input :: int
  stdin :: string
  cout :: string
  ticks :: nat

text \<open>Lines 76 to 86: the two ports are filled; the result is the loop counter and the state.\<close>

definition fill_ports ::
  "int \<Rightarrow> ('x0::len, 'x1::len, 'd::len, 'v::len, 's) tb \<Rightarrow>
   (int \<times> ('x0, 'x1, 'd, 'v, 's) tb) option" where
  "fill_ports i h =
     (if input h = 0 then
        do {
          (r0, v0, inp0) \<leftarrow> viterbi_getc_value (p_x0 (dut h)) (stdin h);
          let h = h\<lparr>dut := (dut h)\<lparr>p_x0 := v0\<rparr>, input := r0, stdin := inp0\<rparr>;
          if input h = 0 then
            do {
              (r1, v1, inp1) \<leftarrow> viterbi_getc_value (p_x1 (dut h)) (stdin h);
              let h = h\<lparr>dut := (dut h)\<lparr>p_x1 := v1\<rparr>, input := r1, stdin := inp1\<rparr>;
              Some (0, h)
            }
          else Some (i, h)
        }
      else Some (i, h))"

text \<open>Lines 88 to 91 and 96 to 99: one sample, when capture is on.\<close>

definition vcd_sample ::
  "int \<Rightarrow> ('x0::len, 'x1::len, 'd::len, 'v::len, 's) tb \<Rightarrow> ('x0, 'x1, 'd, 'v, 's) tb" where
  "vcd_sample capture_vcd h =
     (if capture_vcd = 1 then h\<lparr>w := w h @ [(j h, dut h)], j := j h + 1\<rparr> else h)"

text \<open>Lines 94 and 102: the call of \<^verbatim>\<open>viterbi_clock_and_output\<close> on the state of \<^verbatim>\<open>main\<close>.\<close>

definition clock_tb ::
  "(('x0::len, 'x1::len, 'd::len, 'v::len, 's) p_top \<Rightarrow> ('x0, 'x1, 'd, 'v, 's) p_top) \<Rightarrow>
   1 word \<Rightarrow> ('x0, 'x1, 'd, 'v, 's) tb \<Rightarrow> ('x0, 'x1, 'd, 'v, 's) tb" where
  "clock_tb step sync_clk h =
     (case viterbi_clock_and_output step (dut h) sync_clk (cout h) of
        (r, t, out) \<Rightarrow> h\<lparr>dut := t, cout := out\<rparr>)"

text \<open>Lines 88 to 102: what every loop body does after the ports are filled.\<close>

definition full_tick ::
  "(('x0::len, 'x1::len, 'd::len, 'v::len, 's) p_top \<Rightarrow> ('x0, 'x1, 'd, 'v, 's) p_top) \<Rightarrow>
   int \<Rightarrow> ('x0, 'x1, 'd, 'v, 's) tb \<Rightarrow> ('x0, 'x1, 'd, 'v, 's) tb" where
  "full_tick step capture_vcd h =
     (let h = vcd_sample capture_vcd h;
          h = clock_tb step 0 h;
          h = vcd_sample capture_vcd h;
          h = clock_tb step 1 h
      in h\<lparr>ticks := ticks h + 1\<rparr>)"

text \<open>
  The \<^verbatim>\<open>for\<close> loop of lines 74 to 119, from counter \<open>i\<close>. The counter is set back to 0
  inside the body, so the loop has no bound of its own and is partial as well.
\<close>

partial_function (option) main_loop ::
  "(('x0::len, 'x1::len, 'd::len, 'v::len, 's) p_top \<Rightarrow> ('x0, 'x1, 'd, 'v, 's) p_top) \<Rightarrow>
   int \<Rightarrow> int \<Rightarrow> ('x0, 'x1, 'd, 'v, 's) tb \<Rightarrow> ('x0, 'x1, 'd, 'v, 's) tb option" where
  "main_loop step capture_vcd i h =
     (if i < 256 then
        do {
          (i, h) \<leftarrow> fill_ports i h;
          main_loop step capture_vcd (i + 1) (full_tick step capture_vcd h)
        }
      else Some h)"

text \<open>
  \<^verbatim>\<open>main\<close>: \<open>argv\<close> is the argument vector (\<open>argc\<close> is its length), \<open>top0\<close> the design as its
  constructor leaves it. \<open>tb_init\<close> is the state before the loop (lines 60 to 64): nothing
  sampled, \<open>input\<close> and \<open>j\<close> at 0, nothing written. The result is the exit code, the final
  state, and the file written (its path and the trace buffer) if there is one.
\<close>

record (overloaded) ('x0, 'x1, 'd, 'v, 's) result =
  exit_code :: int
  final :: "('x0, 'x1, 'd, 'v, 's) tb"
  outfile :: "(string \<times> (int \<times> ('x0, 'x1, 'd, 'v, 's) p_top) list) option"

definition tb_init ::
  "('x0::len, 'x1::len, 'd::len, 'v::len, 's) p_top \<Rightarrow> string \<Rightarrow> ('x0, 'x1, 'd, 'v, 's) tb" where
  "tb_init top0 inp =
     \<lparr>dut = top0, w = [], j = 0, input = 0, stdin = inp, cout = [], ticks = 0\<rparr>"

definition main ::
  "(('x0::len, 'x1::len, 'd::len, 'v::len, 's) p_top \<Rightarrow> ('x0, 'x1, 'd, 'v, 's) p_top) \<Rightarrow>
   ('x0, 'x1, 'd, 'v, 's) p_top \<Rightarrow> string list \<Rightarrow> string \<Rightarrow>
   ('x0, 'x1, 'd, 'v, 's) result option" where
  "main step top0 argv inp =
     (let capture_vcd = (if length argv > 1 then 1 else 0);
          h = tb_init top0 inp
      in do {
           h \<leftarrow> main_loop step capture_vcd 0 h;
           if capture_vcd = 1 then
             Some \<lparr>exit_code = 0,
                   final = h\<lparr>cout := cout h @ ''Writing '' @ argv ! 1 @ endl\<rparr>,
                   outfile = Some (argv ! 1, w h)\<rparr>
           else Some \<lparr>exit_code = 0, final = h, outfile = None\<rparr>
         })"

subsection \<open>Classes of input bytes\<close>

text \<open>
  The three tests of \<^verbatim>\<open>viterbi_getc_value\<close> on a byte that was read: \<open>blank\<close> is the test
  \<^verbatim>\<open>c <= 32\<close>, \<open>digit\<close> the test \<^verbatim>\<open>c >= 48 && c < 58\<close> and \<open>lower\<close> the test
  \<^verbatim>\<open>c >= 97 && c < 123\<close>. A \<open>stop\<close> byte passes none of them. \<open>decode\<close> is the result and the
  port value of the branch a byte that is not blank takes.
\<close>

definition blank :: "char \<Rightarrow> bool" where
  "blank b \<longleftrightarrow> (of_char b :: int) \<le> 32"

definition digit :: "char \<Rightarrow> bool" where
  "digit b \<longleftrightarrow> 48 \<le> (of_char b :: int) \<and> (of_char b :: int) < 58"

definition lower :: "char \<Rightarrow> bool" where
  "lower b \<longleftrightarrow> 97 \<le> (of_char b :: int) \<and> (of_char b :: int) < 123"

definition stop :: "char \<Rightarrow> bool" where
  "stop b \<longleftrightarrow> \<not> blank b \<and> \<not> digit b \<and> \<not> lower b"

definition decode :: "'b::len word \<Rightarrow> char \<Rightarrow> int \<times> 'b word" where
  "decode val b =
     (if digit b then (0, value_set (word_of_int (of_char b - 48)))
      else if lower b then (0, value_set (word_of_int (of_char b - 97)))
      else (- 1, val))"

text \<open>
  The input without its blank bytes, and the values that the first \<open>n\<close> calls of
  \<^verbatim>\<open>viterbi_getc_value\<close> on one port deliver, up to the first call that does not return 0.
\<close>

definition drop_blanks :: "string \<Rightarrow> string" where
  "drop_blanks inp = filter (\<lambda>b. \<not> blank b) inp"

fun decoded_values :: "nat \<Rightarrow> 'b::len word \<Rightarrow> string \<Rightarrow> 'b word list" where
  "decoded_values 0 val inp = []"
| "decoded_values (Suc n) val inp =
     (case viterbi_getc_value val inp of
        None \<Rightarrow> []
      | Some (r, v, inp') \<Rightarrow> if r = 0 then v # decoded_values n v inp' else [])"

subsection \<open>A small design for running the testbench\<close>

text \<open>
  A design with 4-bit inputs, an 8-bit data output and a 1-bit validity flag. Each \<open>step\<close>
  adds the value on \<open>x0\<close> to a private counter, puts the sum of the two inputs on the data
  output and the external clock on the validity flag.
\<close>

definition toy_step :: "(4, 4, 8, 1, nat) p_top \<Rightarrow> (4, 4, 8, 1, nat) p_top" where
  "toy_step t =
     t\<lparr>p_data := ucast (p_x0 t) + ucast (p_x1 t), p_data__valid := p_clk t,
       internal := internal t + unat (p_x0 t)\<rparr>"

definition toy_top :: "(4, 4, 8, 1, nat) p_top" where
  "toy_top = \<lparr>p_clk = 0, p_sync__tb__clk = 0, p_x0 = 0, p_x1 = 0, p_data = 0,
     p_data__valid = 0, internal = 0\<rparr>"

section \<open>Properties\<close>

subsection \<open>The symbol decoder\<close>

text \<open>
  One byte of input: the four branches of the loop body. A call returns only if the input
  holds a byte that is not blank; at the end of the input it reads \<^verbatim>\<open>EOF\<close> for ever.
\<close>

lemma getc_Cons:
  "viterbi_getc_value val (b # rest) =
     (if digit b then Some (0, value_set (word_of_int (of_char b - 48)), rest)
      else if lower b then Some (0, value_set (word_of_int (of_char b - 97)), rest)
      else if blank b then viterbi_getc_value val rest
      else Some (- 1, val, rest))"
  by (subst viterbi_getc_value.simps) (simp add: getchar_def digit_def lower_def blank_def)

lemma getc_nonblank:
  assumes "viterbi_getc_value val inp = Some y"
  shows "\<exists>b\<in>set inp. \<not> blank b"
proof (rule viterbi_getc_value.raw_induct [OF _ assms], goal_cases)
  case (1 getc val inp y)
  show ?case
  proof (cases inp)
    case Nil
    with 1(2) have "getc val [] = Some y" by (simp add: getchar_def)
    from 1(1)[OF this] show ?thesis by simp
  next
    case (Cons b rest)
    show ?thesis
    proof (cases "blank b")
      case True
      with 1(2) Cons have "getc val rest = Some y"
        by (simp add: getchar_def blank_def split: if_splits)
      from 1(1)[OF this] Cons show ?thesis by simp
    next
      case False
      with Cons show ?thesis by auto
    qed
  qed
qed

lemma getc_Nil: "viterbi_getc_value val [] = None"
  using getc_nonblank [of val "[]"] by (cases "viterbi_getc_value val []") auto

lemma getc_blanks: "\<forall>b\<in>set ws. blank b \<Longrightarrow> viterbi_getc_value val (ws @ inp) = viterbi_getc_value val inp"
  by (induction ws) (auto simp: getc_Cons digit_def lower_def blank_def)

text \<open>A returning call has skipped a run of blank bytes and consumed one more byte.\<close>

lemma getc_split:
  "viterbi_getc_value val inp = Some (r, v, inp') \<Longrightarrow>
   \<exists>ws b. inp = ws @ b # inp' \<and> (\<forall>x\<in>set ws. blank x) \<and> \<not> blank b \<and> (r, v) = decode val b"
proof (induction inp)
  case Nil
  then show ?case by (simp add: getc_Nil)
next
  case (Cons a inp)
  show ?case
  proof (cases "blank a")
    case True
    then have "\<not> digit a" "\<not> lower a" by (auto simp: blank_def digit_def lower_def)
    with Cons.prems True have "viterbi_getc_value val inp = Some (r, v, inp')"
      by (simp add: getc_Cons)
    from Cons.IH[OF this] obtain ws b where
      "inp = ws @ b # inp'" "\<forall>x\<in>set ws. blank x" "\<not> blank b" "(r, v) = decode val b" by blast
    with True have "a # inp = (a # ws) @ b # inp' \<and> (\<forall>x\<in>set (a # ws). blank x) \<and> \<not> blank b \<and> (r, v) = decode val b"
      by simp
    then show ?thesis by blast
  next
    case False
    with Cons.prems have "a # inp = [] @ a # inp' \<and> (r, v) = decode val a"
      by (auto simp: getc_Cons decode_def split: if_splits)
    with False show ?thesis by (metis empty_iff list.set(1)) 
  qed
qed

lemma getc_join:
  assumes "\<forall>x\<in>set ws. blank x" "\<not> blank b"
  shows "viterbi_getc_value val (ws @ b # inp') = Some (fst (decode val b), snd (decode val b), inp')"
  using assms by (simp add: getc_blanks getc_Cons decode_def)

lemma decode_status: "fst (decode val b) = (if digit b \<or> lower b then 0 else - 1)"
  by (simp add: decode_def)

lemma getc_returns:
  assumes "\<exists>b\<in>set inp. \<not> blank b"
  shows "\<exists>r v inp'. viterbi_getc_value val inp = Some (r, v, inp') \<and> length inp' < length inp \<and>
           (r = 0 \<or> r = - 1) \<and> (r = 0 \<longrightarrow> (\<exists>b\<in>set inp. stop b) \<longrightarrow> (\<exists>b\<in>set inp'. stop b))"
proof -
  from split_list_first_prop [OF assms] obtain ws b rest where
    inp: "inp = ws @ b # rest" and b: "\<not> blank b" and ws: "\<forall>x\<in>set ws. \<not> \<not> blank x"
    by blast
  from ws have ws': "\<forall>x\<in>set ws. blank x" by simp
  have g: "viterbi_getc_value val inp = Some (fst (decode val b), snd (decode val b), rest)"
    unfolding inp using ws' b by (rule getc_join)
  have "fst (decode val b) = 0 \<longrightarrow> (\<exists>x\<in>set inp. stop x) \<longrightarrow> (\<exists>x\<in>set rest. stop x)"
    using ws' by (auto simp: inp decode_status stop_def split: if_splits)
  moreover have "fst (decode val b) = 0 \<or> fst (decode val b) = - 1"
    by (simp add: decode_status)
  moreover have "length rest < length inp" by (simp add: inp)
  ultimately show ?thesis using g by blast
qed

lemma getc_stop_keeps:
  assumes "viterbi_getc_value val inp = Some (r, v, inp')" and "r \<noteq> 0"
  shows "r = - 1 \<and> v = val"
proof -
  from getc_split [OF assms(1)] obtain b where "(r, v) = decode val b" by blast
  with assms(2) show ?thesis by (auto simp: decode_def split: if_splits)
qed

lemma getc_rest:
  assumes "viterbi_getc_value val inp = Some (r, v, inp')"
  shows "set inp' \<subseteq> set inp" and "r \<noteq> 0 \<Longrightarrow> \<exists>b\<in>set inp. stop b"
proof -
  from getc_split [OF assms] obtain ws b where
    inp: "inp = ws @ b # inp'" and b: "\<not> blank b" and d: "(r, v) = decode val b" by blast
  show "set inp' \<subseteq> set inp" by (auto simp: inp)
  assume "r \<noteq> 0"
  with d b have "stop b" by (auto simp: decode_def stop_def split: if_splits)
  then show "\<exists>b\<in>set inp. stop b" by (auto simp: inp)
qed

text \<open>
  C7. A call of \<^verbatim>\<open>viterbi_getc_value\<close> returns exactly when the input is a run of blank bytes
  (bytes up to \<open>0x20\<close>, which are skipped), one byte \<open>b\<close> that is not blank, and the input left
  over: the call consumes exactly one meaningful byte. For a digit the port receives the
  byte's code minus 48 and the result is 0; for a lower-case letter the port receives the
  code minus 97 and the result is 0; for any other byte the port keeps its value and the
  result is \<open>-1\<close>.
\<close>

theorem viterbi_getc_value_decodes:
  "viterbi_getc_value val inp = Some (r, v, inp') \<longleftrightarrow>
     (\<exists>ws b. inp = ws @ b # inp' \<and> (\<forall>x\<in>set ws. blank x) \<and> \<not> blank b \<and>
        (if digit b then r = 0 \<and> v = value_set (word_of_int (of_char b - 48))
         else if lower b then r = 0 \<and> v = value_set (word_of_int (of_char b - 97))
         else r = - 1 \<and> v = val))"
proof
  assume "viterbi_getc_value val inp = Some (r, v, inp')"
  from getc_split [OF this] show "\<exists>ws b. inp = ws @ b # inp' \<and> (\<forall>x\<in>set ws. blank x) \<and> \<not> blank b \<and>
        (if digit b then r = 0 \<and> v = value_set (word_of_int (of_char b - 48))
         else if lower b then r = 0 \<and> v = value_set (word_of_int (of_char b - 97))
         else r = - 1 \<and> v = val)"
    by (auto simp: decode_def split: if_splits)
next
  assume "\<exists>ws b. inp = ws @ b # inp' \<and> (\<forall>x\<in>set ws. blank x) \<and> \<not> blank b \<and>
        (if digit b then r = 0 \<and> v = value_set (word_of_int (of_char b - 48))
         else if lower b then r = 0 \<and> v = value_set (word_of_int (of_char b - 97))
         else r = - 1 \<and> v = val)"
  then obtain ws b where inp: "inp = ws @ b # inp'" and ws: "\<forall>x\<in>set ws. blank x"
    and b: "\<not> blank b" and d: "(r, v) = decode val b"
    by (auto simp: decode_def split: if_splits)
  from d have "fst (decode val b) = r" and "snd (decode val b) = v"
    by (metis fst_conv, metis snd_conv)
  with getc_join [OF ws b, of val inp'] show "viterbi_getc_value val inp = Some (r, v, inp')"
    by (simp only: inp)
qed

theorem viterbi_getc_value_decodes_witness:
  "viterbi_getc_value (0 :: 4 word) '' 7x'' = Some (0, 7, ''x'') \<and>
   viterbi_getc_value (3 :: 4 word) ''c!'' = Some (0, 2, ''!'') \<and>
   viterbi_getc_value (3 :: 4 word) ''!c'' = Some (- 1, 3, ''c'')"
proof -
  have "\<exists>ws b. '' 7x'' = ws @ b # ''x'' \<and> (\<forall>x\<in>set ws. blank x) \<and> \<not> blank b \<and>
        (if digit b then (0::int) = 0 \<and> (7 :: 4 word) = value_set (word_of_int (of_char b - 48))
         else if lower b then (0::int) = 0 \<and> (7 :: 4 word) = value_set (word_of_int (of_char b - 97))
         else (0::int) = - 1 \<and> (7 :: 4 word) = 0)"
    by (rule exI [of _ "'' ''"], rule exI [of _ "CHR ''7''"])
      (simp add: blank_def digit_def value_set_def)
  then have a: "viterbi_getc_value (0 :: 4 word) '' 7x'' = Some (0, 7, ''x'')"
    by (simp only: viterbi_getc_value_decodes [of 0 "'' 7x''" 0 7 "''x''"])
  have "\<exists>ws b. ''c!'' = ws @ b # ''!'' \<and> (\<forall>x\<in>set ws. blank x) \<and> \<not> blank b \<and>
        (if digit b then (0::int) = 0 \<and> (2 :: 4 word) = value_set (word_of_int (of_char b - 48))
         else if lower b then (0::int) = 0 \<and> (2 :: 4 word) = value_set (word_of_int (of_char b - 97))
         else (0::int) = - 1 \<and> (2 :: 4 word) = 3)"
    by (rule exI [of _ "[]"], rule exI [of _ "CHR ''c''"])
      (simp add: blank_def digit_def lower_def value_set_def)
  then have b: "viterbi_getc_value (3 :: 4 word) ''c!'' = Some (0, 2, ''!'')"
    by (simp only: viterbi_getc_value_decodes [of 3 "''c!''" 0 2 "''!''"])
  have "\<exists>ws b. ''!c'' = ws @ b # ''c'' \<and> (\<forall>x\<in>set ws. blank x) \<and> \<not> blank b \<and>
        (if digit b then (- 1::int) = 0 \<and> (3 :: 4 word) = value_set (word_of_int (of_char b - 48))
         else if lower b then (- 1::int) = 0 \<and> (3 :: 4 word) = value_set (word_of_int (of_char b - 97))
         else (- 1::int) = - 1 \<and> (3 :: 4 word) = 3)"
    by (rule exI [of _ "[]"], rule exI [of _ "CHR ''!''"])
      (simp add: blank_def digit_def lower_def value_set_def)
  then have c: "viterbi_getc_value (3 :: 4 word) ''!c'' = Some (- 1, 3, ''c'')"
    by (simp only: viterbi_getc_value_decodes [of 3 "''!c''" "- 1" 3 "''c''"])
  from a b c show ?thesis by simp
qed

text \<open>A value below \<open>2^32\<close> written to a port is reduced modulo 2 to the port's width.\<close>

lemma uint_value_set:
  "0 \<le> k \<Longrightarrow> k < 2 ^ 32 \<Longrightarrow>
   uint (value_set (word_of_int k) :: 'b::len word) = k mod 2 ^ LENGTH('b)"
  by (simp add: value_set_def uint_word_of_int unsigned_ucast_eq take_bit_eq_mod)

text \<open>
  C6. For every digit or lower-case letter, after any run of blank bytes, the call returns 0
  and the port holds the decoded value reduced modulo 2 to the power of the port's width:
  a value wider than the port is truncated and the caller sees the same result 0.
\<close>

theorem port_write_masked:
  assumes "\<forall>x\<in>set ws. blank x" and "digit b \<or> lower b"
  shows "\<exists>v. viterbi_getc_value (val :: 'b::len word) (ws @ b # rest) = Some (0, v, rest) \<and>
           uint v = (of_char b - (if digit b then 48 else 97)) mod 2 ^ LENGTH('b)"
proof -
  from assms(2) have nb: "\<not> blank b" by (auto simp: blank_def digit_def lower_def)
  let ?k = "of_char b - (if digit b then 48 else 97) :: int"
  have k: "0 \<le> ?k" "?k < 2 ^ 32"
    using assms(2) by (auto simp: digit_def lower_def)
  have "snd (decode val b) = value_set (word_of_int ?k)"
    using assms(2) by (auto simp: decode_def)
  then have "uint (snd (decode val b)) = ?k mod 2 ^ LENGTH('b)"
    by (simp only: uint_value_set [OF k])
  with getc_join [OF assms(1) nb, of val rest] assms(2) show ?thesis
    by (simp add: decode_status)
qed

theorem port_write_masked_witness:
  "\<exists>v. viterbi_getc_value (0 :: 4 word) '' z!'' = Some (0, v, ''!'') \<and> uint v = 9"
proof -
  have a: "\<forall>x\<in>set '' ''. blank x" by (simp add: blank_def)
  have b: "digit CHR ''z'' \<or> lower CHR ''z''" by (simp add: lower_def)
  from port_write_masked [OF a b, of "0 :: 4 word" "''!''"] show ?thesis
    by (simp add: digit_def)
qed

text \<open>
  Blank bytes are invisible to the decoder: a call on the input without its blank bytes
  returns the same result and port value, and leaves the same input without its blank bytes.
\<close>

lemma getc_first_nonblank:
  "\<not> blank b \<Longrightarrow> viterbi_getc_value val (b # rest) = Some (fst (decode val b), snd (decode val b), rest)"
  using getc_join [of "[]" b val rest] by simp

lemma getc_drop_blanks_Some:
  assumes "viterbi_getc_value val inp = Some (r, v, inp')"
  shows "viterbi_getc_value val (drop_blanks inp) = Some (r, v, drop_blanks inp')"
proof -
  from getc_split [OF assms] obtain ws b where
    inp: "inp = ws @ b # inp'" and ws: "\<forall>x\<in>set ws. blank x" and b: "\<not> blank b"
    and d: "(r, v) = decode val b" by blast
  from ws have "filter (\<lambda>b. \<not> blank b) ws = []" by (simp add: filter_empty_conv)
  with b have "drop_blanks inp = b # drop_blanks inp'" by (simp add: drop_blanks_def inp)
  moreover from d have "fst (decode val b) = r" and "snd (decode val b) = v"
    by (metis fst_conv, metis snd_conv)
  ultimately show ?thesis using getc_first_nonblank [OF b, of val "drop_blanks inp'"] by simp
qed

lemma getc_drop_blanks_None:
  assumes "viterbi_getc_value val inp = None"
  shows "viterbi_getc_value val (drop_blanks inp) = None"
proof -
  have "\<not> (\<exists>b\<in>set inp. \<not> blank b)" using getc_returns [of inp val] assms by auto
  then have "drop_blanks inp = []" by (simp add: drop_blanks_def filter_empty_conv)
  then show ?thesis by (simp add: getc_Nil)
qed

lemma decoded_values_drop_blanks:
  "decoded_values n val (drop_blanks inp) = decoded_values n val inp"
proof (induction n arbitrary: val inp)
  case 0
  show ?case by simp
next
  case (Suc n)
  show ?case
  proof (cases "viterbi_getc_value val inp")
    case None
    with getc_drop_blanks_None [OF None] show ?thesis by simp
  next
    case (Some y)
    obtain r v inp' where y: "y = (r, v, inp')" by (cases y)
    with Some getc_drop_blanks_Some [of val inp r v inp'] Suc.IH [of v inp'] show ?thesis
      by simp
  qed
qed

text \<open>
  C9. Two inputs that differ only in blank bytes (bytes up to \<open>0x20\<close>), wherever these are
  inserted, give the same sequence of decoded values, for any number of calls.
\<close>

theorem blanks_do_not_change_values:
  assumes "drop_blanks inp = drop_blanks inp2"
  shows "decoded_values n val inp = decoded_values n val inp2"
proof -
  have "decoded_values n val inp = decoded_values n val (drop_blanks inp)"
    by (simp only: decoded_values_drop_blanks)
  also have "\<dots> = decoded_values n val (drop_blanks inp2)"
    by (simp only: assms)
  also have "\<dots> = decoded_values n val inp2"
    by (simp only: decoded_values_drop_blanks)
  finally show ?thesis .
qed

lemma decoded_values_numeral:
  "decoded_values (numeral k) val inp =
     (case viterbi_getc_value val inp of
        None \<Rightarrow> []
      | Some (r, v, inp') \<Rightarrow> if r = 0 then v # decoded_values (pred_numeral k) v inp' else [])"
  by (simp add: numeral_eq_Suc)

lemma decoded_values_ex: "decoded_values 5 (0 :: 4 word) ''1 2abc!'' = [1, 2, 0, 1, 2]"
  by (simp add: decoded_values_numeral getc_Cons digit_def lower_def blank_def value_set_def)

theorem blanks_do_not_change_values_witness:
  "decoded_values 5 (0 :: 4 word) '' 12 a  bc!'' = [1, 2, 0, 1, 2]"
proof -
  have "drop_blanks '' 12 a  bc!'' = drop_blanks ''1 2abc!''"
    by (simp add: drop_blanks_def blank_def)
  from blanks_do_not_change_values [OF this, of 5 "0 :: 4 word"] show ?thesis
    by (simp only: decoded_values_ex)
qed

subsection \<open>The half-tick\<close>

lemma half_tick_unfold:
  "viterbi_clock_and_output step dt l out =
     (0, (step ((step (dt\<lparr>p_clk := l\<rparr>))\<lparr>p_sync__tb__clk := 0\<rparr>))\<lparr>p_sync__tb__clk := 1\<rparr>,
      out @ (if value_get (p_data__valid (step ((step (dt\<lparr>p_clk := l\<rparr>))\<lparr>p_sync__tb__clk := 0\<rparr>))) = 1
             then decimal (unat (value_get (p_data (step ((step (dt\<lparr>p_clk := l\<rparr>))\<lparr>p_sync__tb__clk := 0\<rparr>))))) @ endl
             else []))"
  by (simp add: viterbi_clock_and_output_def Let_def)

lemma unat_value_get: "LENGTH('d::len) \<le> 32 \<Longrightarrow> unat (value_get (x :: 'd word)) = unat x"
proof -
  assume le: "LENGTH('d) \<le> 32"
  have "unat x < 2 ^ LENGTH('d)" by (rule unsigned_less)
  also have "(2::nat) ^ LENGTH('d) \<le> 2 ^ 32" using le by (rule power_increasing) simp
  finally have "take_bit 32 (unat x) = unat x" by (simp add: take_bit_nat_eq_self)
  then show ?thesis by (simp add: value_get_def unsigned_ucast_eq)
qed

lemma value_get_eq_1: "LENGTH('v::len) \<le> 32 \<Longrightarrow> value_get (x :: 'v word) = 1 \<longleftrightarrow> x = 1"
proof -
  assume le: "LENGTH('v) \<le> 32"
  have "value_get x = 1 \<longleftrightarrow> unat (value_get x) = 1"
    by (simp add: word_unat_eq_iff)
  also have "\<dots> \<longleftrightarrow> unat x = 1" by (simp add: unat_value_get [OF le])
  also have "\<dots> \<longleftrightarrow> x = 1" by (simp add: word_unat_eq_iff)
  finally show ?thesis .
qed

text \<open>The decimal digits of a number: only digits, and they denote the number.\<close>

lemma decimal_small: "n < 10 \<Longrightarrow> decimal n = [''0123456789'' ! n]"
  by (simp add: decimal.simps)

lemma decimal_large: "\<not> n < 10 \<Longrightarrow> decimal n = decimal (n div 10) @ [''0123456789'' ! (n mod 10)]"
  by (subst decimal.simps) simp

lemma digit_char_value: "d < 10 \<Longrightarrow> (of_char (''0123456789'' ! d) :: nat) = 48 + d"
proof -
  assume "d < 10"
  then have "d \<in> {0, 1, 2, 3, 4, 5, 6, 7, 8, 9}" by auto
  then show ?thesis by auto
qed

lemma decimal_digits: "set (decimal n) \<subseteq> set ''0123456789''"
proof (induction n rule: decimal.induct)
  case (1 n)
  have m: "''0123456789'' ! (n mod 10) \<in> set ''0123456789''" by (rule nth_mem) simp
  show ?case
  proof (cases "n < 10")
    case True
    then have "''0123456789'' ! n \<in> set ''0123456789''" by (intro nth_mem) simp
    with True show ?thesis by (simp add: decimal_small)
  next
    case False
    with 1 m show ?thesis by (simp add: decimal_large)
  qed
qed

lemma decimal_value:
  "foldl (\<lambda>a ch. 10 * a + (of_char ch - 48)) 0 (decimal n) = n"
proof (induction n rule: decimal.induct)
  case (1 n)
  show ?case
  proof (cases "n < 10")
    case True
    then show ?thesis by (simp add: decimal_small digit_char_value)
  next
    case False
    with 1 show ?thesis by (simp add: decimal_large digit_char_value)
  qed
qed

lemma decimal_nonempty: "decimal n \<noteq> []"
  by (cases "n < 10") (simp_all add: decimal_small decimal_large)

lemma decimal_zero: "decimal 0 = ''0''"
  by (simp add: decimal_small)

lemma digit_char_nonzero: "0 < d \<Longrightarrow> d < 10 \<Longrightarrow> ''0123456789'' ! d \<noteq> CHR ''0''"
proof -
  assume "0 < d" "d < 10"
  then have "d \<in> {1, 2, 3, 4, 5, 6, 7, 8, 9}" by auto
  then show ?thesis by auto
qed

lemma decimal_no_leading_zero: "0 < n \<Longrightarrow> hd (decimal n) \<noteq> CHR ''0''"
proof (induction n rule: decimal.induct)
  case (1 n)
  show ?case
  proof (cases "n < 10")
    case True
    have nz: "''0123456789'' ! n \<noteq> CHR ''0''"
      using 1(2) True by (rule digit_char_nonzero)
    have "decimal n = [''0123456789'' ! n]" using True by (rule decimal_small)
    then have "hd (decimal n) = ''0123456789'' ! n" by (simp only: list.sel)
    with nz show ?thesis by simp
  next
    case False
    then have "0 < n div 10" by simp
    with 1(1) False have "hd (decimal (n div 10)) \<noteq> CHR ''0''" by simp
    with False show ?thesis by (simp add: decimal_large decimal_nonempty)
  qed
qed

lemma decimal_leading_zero: "hd (decimal n) = CHR ''0'' \<Longrightarrow> decimal n = ''0''"
  using decimal_no_leading_zero [of n] decimal_zero by (cases "n = 0") auto

text \<open>The half-tick on the small design.\<close>

lemma toy_half_tick:
  "viterbi_clock_and_output toy_step d l out =
     (0, d\<lparr>p_clk := l, p_sync__tb__clk := 1, p_data := ucast (p_x0 d) + ucast (p_x1 d),
           p_data__valid := l, internal := internal d + 2 * unat (p_x0 d)\<rparr>,
      out @ (if l = 1 then decimal (unat (ucast (p_x0 d) + ucast (p_x1 d) :: 8 word)) @ endl else []))"
  by (simp add: half_tick_unfold toy_step_def value_get_eq_1 unat_value_get)

text \<open>
  C5, as the program has it. A half-tick sets the external clock to the level \<open>l\<close> of the
  call and advances the design, sets the testbench-domain clock to 0 and advances the design,
  and sets the testbench-domain clock to 1. No advance follows this last assignment: the data
  and validity outputs are read directly after it, so they are the outputs of the second
  advance.
\<close>

theorem half_tick_sequence:
  "viterbi_clock_and_output step dt l out =
     (0, (step ((step (dt\<lparr>p_clk := l\<rparr>))\<lparr>p_sync__tb__clk := 0\<rparr>))\<lparr>p_sync__tb__clk := 1\<rparr>,
      out @ (if value_get (p_data__valid (step ((step (dt\<lparr>p_clk := l\<rparr>))\<lparr>p_sync__tb__clk := 0\<rparr>))) = 1
             then decimal (unat (value_get (p_data (step ((step (dt\<lparr>p_clk := l\<rparr>))\<lparr>p_sync__tb__clk := 0\<rparr>))))) @ endl
             else []))"
  by (fact half_tick_unfold)

text \<open>
  The claim C5 as stated has an advance after each of the three assignments. On the small
  design with 1 on \<open>x0\<close> the program's half-tick advances the design twice (the private
  counter is 2), the stated sequence three times (the counter is 3).
\<close>

theorem half_tick_sequence_counterexample:
  "viterbi_clock_and_output toy_step (toy_top\<lparr>p_x0 := 1\<rparr>) 1 [] \<noteq>
   clock_sequence_stated toy_step (toy_top\<lparr>p_x0 := 1\<rparr>) 1 [] \<and>
   internal (fst (snd (viterbi_clock_and_output toy_step (toy_top\<lparr>p_x0 := 1\<rparr>) 1 []))) = 2 \<and>
   internal (fst (snd (clock_sequence_stated toy_step (toy_top\<lparr>p_x0 := 1\<rparr>) 1 []))) = 3"
proof -
  have a: "internal (fst (snd (viterbi_clock_and_output toy_step (toy_top\<lparr>p_x0 := 1\<rparr>) 1 []))) = 2"
    by (simp add: toy_half_tick toy_top_def)
  have b: "internal (fst (snd (clock_sequence_stated toy_step (toy_top\<lparr>p_x0 := 1\<rparr>) 1 []))) = 3"
    by (simp add: clock_sequence_stated_def Let_def toy_step_def toy_top_def)
  from a b show ?thesis by auto
qed

text \<open>
  C8. A half-tick appends to the output the decimal numeral of the data output followed by
  the newline byte \<open>0x0A\<close> when the validity flag is 1, and appends nothing when the flag is
  not 1. The numeral is spelled out: it is not empty, consists of the digits 0 to 9, has no
  leading zero unless it is the single digit 0, and read in base ten it is the value of the
  data output. The two outputs are read by \<^verbatim>\<open>get<unsigned int>\<close>, so both ports are at most
  32 bits wide.
\<close>

theorem output_gate:
  fixes dt :: "('x0::len, 'x1::len, 'd::len, 'v::len, 's) p_top"
  assumes "viterbi_clock_and_output step dt l out = (r, dt', out')"
    and "LENGTH('v) \<le> 32" and "LENGTH('d) \<le> 32"
  shows "out' = out @ (if p_data__valid dt' = 1 then decimal (unat (p_data dt')) @ [CHR 0x0A] else []) \<and>
         decimal (unat (p_data dt')) \<noteq> [] \<and>
         set (decimal (unat (p_data dt'))) \<subseteq> set ''0123456789'' \<and>
         (hd (decimal (unat (p_data dt'))) = CHR ''0'' \<longrightarrow> decimal (unat (p_data dt')) = ''0'') \<and>
         foldl (\<lambda>a ch. 10 * a + (of_char ch - 48)) 0 (decimal (unat (p_data dt'))) = unat (p_data dt')"
proof -
  let ?d2 = "step ((step (dt\<lparr>p_clk := l\<rparr>))\<lparr>p_sync__tb__clk := 0\<rparr>)"
  from assms(1) have d: "dt' = ?d2\<lparr>p_sync__tb__clk := 1\<rparr>"
    and o: "out' = out @ (if value_get (p_data__valid ?d2) = 1
             then decimal (unat (value_get (p_data ?d2))) @ endl else [])"
    unfolding half_tick_unfold by simp_all
  have "p_data__valid dt' = p_data__valid ?d2" "p_data dt' = p_data ?d2"
    by (simp_all add: d)
  then have "out' = out @ (if p_data__valid dt' = 1 then decimal (unat (p_data dt')) @ endl else [])"
    by (simp only: o value_get_eq_1 [OF assms(2)] unat_value_get [OF assms(3)])
  then have "out' = out @ (if p_data__valid dt' = 1 then decimal (unat (p_data dt')) @ [CHR 0x0A] else [])"
    by (simp only: endl_def)
  then show ?thesis
    using decimal_nonempty decimal_digits decimal_leading_zero decimal_value by blast
qed

theorem output_gate_witness:
  "snd (snd (viterbi_clock_and_output toy_step (toy_top\<lparr>p_x0 := 7, p_x1 := 5\<rparr>) 1 []))
     = [CHR ''1'', CHR ''2'', CHR 0x0A] \<and>
   snd (snd (viterbi_clock_and_output toy_step (toy_top\<lparr>p_x0 := 7, p_x1 := 5\<rparr>) 0 []))
     = []"
proof -
  let ?d = "toy_top\<lparr>p_x0 := 7, p_x1 := 5\<rparr>"
  have w: "LENGTH(1) \<le> 32" "LENGTH(8) \<le> 32" by simp_all
  obtain r d' out' where a: "viterbi_clock_and_output toy_step ?d 1 [] = (r, d', out')"
    by (cases "viterbi_clock_and_output toy_step ?d 1 []")
  obtain r0 d0 out0 where b: "viterbi_clock_and_output toy_step ?d 0 [] = (r0, d0, out0)"
    by (cases "viterbi_clock_and_output toy_step ?d 0 []")
  have d': "p_data__valid d' = 1" "p_data d' = 12"
    using a by (auto simp: toy_half_tick toy_top_def)
  have d0: "p_data__valid d0 = 0"
    using b by (auto simp: toy_half_tick toy_top_def)
  have "out' = [CHR ''1'', CHR ''2'', CHR 0x0A]"
    using output_gate [OF a w, THEN conjunct1] d' by (simp add: decimal_small decimal_large)
  moreover have "out0 = []"
    using output_gate [OF b w, THEN conjunct1] d0 by simp
  ultimately show ?thesis by (simp add: a b)
qed

subsection \<open>The driver loop\<close>

text \<open>What the parts of the loop body leave unchanged.\<close>

lemma tb_init_fields [simp]:
  "dut (tb_init top0 inp) = top0" "w (tb_init top0 inp) = []" "j (tb_init top0 inp) = 0"
  "input (tb_init top0 inp) = 0" "stdin (tb_init top0 inp) = inp" "cout (tb_init top0 inp) = []"
  "ticks (tb_init top0 inp) = 0"
  by (simp_all add: tb_init_def)

lemma clock_tb_fields [simp]:
  "input (clock_tb step l h) = input h"
  "stdin (clock_tb step l h) = stdin h"
  "ticks (clock_tb step l h) = ticks h"
  "w (clock_tb step l h) = w h"
  "j (clock_tb step l h) = j h"
  by (simp_all add: clock_tb_def split: prod.splits)

lemma vcd_sample_fields [simp]:
  "input (vcd_sample c h) = input h"
  "stdin (vcd_sample c h) = stdin h"
  "ticks (vcd_sample c h) = ticks h"
  "dut (vcd_sample c h) = dut h"
  "cout (vcd_sample c h) = cout h"
  "length (w (vcd_sample c h)) = length (w h) + (if c = 1 then 1 else 0)"
  by (simp_all add: vcd_sample_def)

lemma full_tick_fields [simp]:
  "input (full_tick step c h) = input h"
  "stdin (full_tick step c h) = stdin h"
  "ticks (full_tick step c h) = ticks h + 1"
  "length (w (full_tick step c h)) = length (w h) + (if c = 1 then 2 else 0)"
  by (simp_all add: full_tick_def Let_def)

lemma full_ticks_fields [simp]:
  "input ((full_tick step c ^^ n) h) = input h"
  "stdin ((full_tick step c ^^ n) h) = stdin h"
  "ticks ((full_tick step c ^^ n) h) = ticks h + n"
  "length (w ((full_tick step c ^^ n) h)) = length (w h) + (if c = 1 then 2 * n else 0)"
  by (induction n) simp_all

text \<open>
  One loop body after the filling, written out on the design: four advances with the clock
  assignments between them, the two output checks, and the two samples when capture is on.
\<close>

lemma full_tick_explicit:
  "full_tick step c g =
     (let d0 = (step ((step ((dut g)\<lparr>p_clk := 0\<rparr>))\<lparr>p_sync__tb__clk := 0\<rparr>))\<lparr>p_sync__tb__clk := 1\<rparr>;
          d1 = (step ((step (d0\<lparr>p_clk := 1\<rparr>))\<lparr>p_sync__tb__clk := 0\<rparr>))\<lparr>p_sync__tb__clk := 1\<rparr>;
          o0 = (if value_get (p_data__valid d0) = 1
                then decimal (unat (value_get (p_data d0))) @ [CHR 0x0A] else []);
          o1 = (if value_get (p_data__valid d1) = 1
                then decimal (unat (value_get (p_data d1))) @ [CHR 0x0A] else [])
      in g\<lparr>dut := d1,
           w := w g @ (if c = 1 then [(j g, dut g), (j g + 1, d0)] else []),
           j := j g + (if c = 1 then 2 else 0),
           cout := cout g @ o0 @ o1,
           ticks := ticks g + 1\<rparr>)"
  by (cases "c = 1")
    (simp_all add: full_tick_def vcd_sample_def clock_tb_def half_tick_unfold Let_def endl_def)

text \<open>The four ways through the port assignment.\<close>

lemma fill_ports_stopped: "input h \<noteq> 0 \<Longrightarrow> fill_ports i h = Some (i, h)"
  by (simp add: fill_ports_def)

lemma fill_ports_none: "input h = 0 \<Longrightarrow> viterbi_getc_value (p_x0 (dut h)) (stdin h) = None \<Longrightarrow>
  fill_ports i h = None"
  by (simp add: fill_ports_def)

lemma fill_ports_x0_stop:
  "input h = 0 \<Longrightarrow> viterbi_getc_value (p_x0 (dut h)) (stdin h) = Some (r0, v0, s0) \<Longrightarrow> r0 \<noteq> 0 \<Longrightarrow>
   fill_ports i h = Some (i, h\<lparr>dut := (dut h)\<lparr>p_x0 := v0\<rparr>, input := r0, stdin := s0\<rparr>)"
  by (simp add: fill_ports_def)

lemma fill_ports_x1_none:
  "input h = 0 \<Longrightarrow> viterbi_getc_value (p_x0 (dut h)) (stdin h) = Some (0, v0, s0) \<Longrightarrow>
   viterbi_getc_value (p_x1 (dut h)) s0 = None \<Longrightarrow> fill_ports i h = None"
  by (simp add: fill_ports_def)

lemma fill_ports_x1:
  "input h = 0 \<Longrightarrow> viterbi_getc_value (p_x0 (dut h)) (stdin h) = Some (0, v0, s0) \<Longrightarrow>
   viterbi_getc_value (p_x1 (dut h)) s0 = Some (r1, v1, s1) \<Longrightarrow>
   fill_ports i h = Some (0, h\<lparr>dut := (dut h)\<lparr>p_x0 := v0, p_x1 := v1\<rparr>, input := r1, stdin := s1\<rparr>)"
  by (simp add: fill_ports_def)

lemma fill_ports_fields:
  assumes "fill_ports i h = Some (i', h')"
  shows "w h' = w h" "ticks h' = ticks h" "cout h' = cout h" "j h' = j h" "i' = i \<or> i' = 0"
  using assms
  by (auto simp: fill_ports_def Let_def split: if_splits Option.bind_splits)

lemma fill_ports_stop_byte:
  assumes "fill_ports i h = Some (i', h')" and "input h = 0"
  shows "(input h' \<noteq> 0 \<longrightarrow> (\<exists>b\<in>set (stdin h). stop b)) \<and>
         (input h' = 0 \<longrightarrow> i' = 0 \<and> set (stdin h') \<subseteq> set (stdin h))"
proof -
  from assms obtain r0 v0 s0 where
    g0: "viterbi_getc_value (p_x0 (dut h)) (stdin h) = Some (r0, v0, s0)"
    by (cases "viterbi_getc_value (p_x0 (dut h)) (stdin h)") (auto simp: fill_ports_def)
  show ?thesis
  proof (cases "r0 = 0")
    case False
    with assms g0 getc_rest(2) [OF g0] show ?thesis by (auto simp: fill_ports_def)
  next
    case True
    with assms g0 obtain r1 v1 s1 where
      g1: "viterbi_getc_value (p_x1 (dut h)) s0 = Some (r1, v1, s1)"
      by (cases "viterbi_getc_value (p_x1 (dut h)) s0") (auto simp: fill_ports_def)
    from assms g0 g1 True have h': "input h' = r1" "stdin h' = s1" "i' = 0"
      by (auto simp: fill_ports_def)
    from getc_rest(1) [OF g0] getc_rest [OF g1] h' show ?thesis by auto
  qed
qed

text \<open>
  One loop body, and the loop once \<open>input\<close> is not 0: nothing is read any more, and the loop
  runs one full tick per remaining count.
\<close>

lemma main_loop_exit: "\<not> i < 256 \<Longrightarrow> main_loop step c i h = Some h"
  by (subst main_loop.simps) simp

lemma main_loop_body:
  "i < 256 \<Longrightarrow> fill_ports i h = Some (i', h') \<Longrightarrow>
   main_loop step c i h = main_loop step c (i' + 1) (full_tick step c h')"
  by (subst main_loop.simps) simp

lemma main_loop_hang: "i < 256 \<Longrightarrow> fill_ports i h = None \<Longrightarrow> main_loop step c i h = None"
  by (subst main_loop.simps) simp

lemma main_loop_stopped:
  "input h \<noteq> 0 \<Longrightarrow> i \<le> 256 \<Longrightarrow>
   main_loop step c i h = Some ((full_tick step c ^^ nat (256 - i)) h)"
proof (induction "nat (256 - i)" arbitrary: i h)
  case 0
  then show ?case by (simp add: main_loop_exit)
next
  case (Suc n)
  then have i: "i < 256" and n: "n = nat (256 - (i + 1))" by linarith+
  have "main_loop step c i h = main_loop step c (i + 1) (full_tick step c h)"
    using i Suc.prems(1) by (simp add: main_loop_body fill_ports_stopped)
  also have "\<dots> = Some ((full_tick step c ^^ n) (full_tick step c h))"
    using Suc.hyps(1)[OF n] Suc.prems(1) i n by simp
  also have "(full_tick step c ^^ n) (full_tick step c h) = (full_tick step c ^^ Suc n) h"
    by (simp add: funpow_swap1)
  finally show ?case using Suc.hyps(2) by simp
qed

lemma main_loop_after_fill:
  assumes "i < 256" and "fill_ports i h = Some (i', h')" and "input h' \<noteq> 0"
  shows "main_loop step c i h = Some ((full_tick step c ^^ nat (256 - i')) h')"
proof -
  from fill_ports_fields(5) [OF assms(2)] assms(1) have i': "i' < 256" by auto
  have "main_loop step c i h = main_loop step c (i' + 1) (full_tick step c h')"
    using assms(1,2) by (rule main_loop_body)
  also have "\<dots> = Some ((full_tick step c ^^ nat (256 - (i' + 1))) (full_tick step c h'))"
    using assms(3) i' by (simp add: main_loop_stopped)
  also have "(full_tick step c ^^ nat (256 - (i' + 1))) (full_tick step c h')
      = (full_tick step c ^^ Suc (nat (256 - (i' + 1)))) h'"
    by (simp add: funpow_swap1)
  also have "Suc (nat (256 - (i' + 1))) = nat (256 - i')" using i' by simp
  finally show ?thesis .
qed

text \<open>
  Termination. The loop returns from every state whose input holds a stop byte, and a loop
  that still reads returns only if there is one. So \<^verbatim>\<open>main\<close> returns exactly on the inputs
  that hold a stop byte, and then with exit code 0.
\<close>

lemma main_loop_terminates:
  "\<exists>b\<in>set (stdin h). stop b \<Longrightarrow> i \<le> 256 \<Longrightarrow> \<exists>h'. main_loop step c i h = Some h'"
proof (induction "length (stdin h)" arbitrary: i h rule: less_induct)
  case less
  show ?case
  proof (cases "i < 256 \<and> input h = 0")
    case False
    then show ?thesis using less.prems(2) main_loop_stopped [of h i step c] main_loop_exit [of i step c h] 
      by (cases "i < 256") auto
  next
    case True
    then have i: "i < 256" and inp: "input h = 0" by simp_all
    from less.prems(1) have nb: "\<exists>b\<in>set (stdin h). \<not> blank b" by (auto simp: stop_def)
    from getc_returns [OF nb, of "p_x0 (dut h)"] obtain r0 v0 s0 where
      g0: "viterbi_getc_value (p_x0 (dut h)) (stdin h) = Some (r0, v0, s0)" and
      l0: "length s0 < length (stdin h)" and r0: "r0 = 0 \<or> r0 = - 1" and
      st0: "r0 = 0 \<longrightarrow> (\<exists>b\<in>set s0. stop b)"
      using less.prems(1) by blast
    show ?thesis
    proof (cases "r0 = 0")
      case False
      let ?h = "h\<lparr>dut := (dut h)\<lparr>p_x0 := v0\<rparr>, input := r0, stdin := s0\<rparr>"
      have "main_loop step c i h = main_loop step c (i + 1) (full_tick step c ?h)"
        using i fill_ports_x0_stop [OF inp g0 False] by (rule main_loop_body)
      moreover have "input (full_tick step c ?h) \<noteq> 0" using False by simp
      ultimately show ?thesis using main_loop_stopped [of "full_tick step c ?h" "i + 1" step c] i
        by simp
    next
      case True
      with st0 have nb1: "\<exists>b\<in>set s0. \<not> blank b" and st1: "\<exists>b\<in>set s0. stop b"
        by (auto simp: stop_def)
      from getc_returns [OF nb1, of "p_x1 (dut h)"] obtain r1 v1 s1 where
        g1: "viterbi_getc_value (p_x1 (dut h)) s0 = Some (r1, v1, s1)" and
        l1: "length s1 < length s0" and r1: "r1 = 0 \<or> r1 = - 1" and
        st2: "r1 = 0 \<longrightarrow> (\<exists>b\<in>set s1. stop b)"
        using st1 by blast
      let ?h = "h\<lparr>dut := (dut h)\<lparr>p_x0 := v0, p_x1 := v1\<rparr>, input := r1, stdin := s1\<rparr>"
      have eq: "main_loop step c i h = main_loop step c (0 + 1) (full_tick step c ?h)"
        using i fill_ports_x1 [OF inp g0 [unfolded True] g1] by (rule main_loop_body)
      show ?thesis
      proof (cases "r1 = 0")
        case False
        then have "input (full_tick step c ?h) \<noteq> 0" by simp
        then show ?thesis using eq main_loop_stopped [of "full_tick step c ?h" 1 step c] by simp
      next
        case True
        with st2 have "\<exists>b\<in>set (stdin (full_tick step c ?h)). stop b" by simp
        moreover have "length (stdin (full_tick step c ?h)) < length (stdin h)"
          using l0 l1 by simp
        ultimately show ?thesis using eq less.hyps [of "full_tick step c ?h" 1] by simp
      qed
    qed
  qed
qed

lemma main_loop_needs_stop:
  assumes "main_loop step c i h = Some h'"
  shows "i < 256 \<and> input h = 0 \<longrightarrow> (\<exists>b\<in>set (stdin h). stop b)"
proof (rule main_loop.raw_induct [OF _ assms], goal_cases)
  case (1 loop step c i h y)
  show ?case
  proof (intro impI, elim conjE)
    assume i: "i < 256" and inp: "input h = 0"
    with 1(2) obtain i1 h1 where f: "fill_ports i h = Some (i1, h1)"
      and l: "loop step c (i1 + 1) (full_tick step c h1) = Some y"
      by (auto simp: bind_eq_Some_conv)
    show "\<exists>b\<in>set (stdin h). stop b"
    proof (cases "input h1 = 0")
      case False
      with fill_ports_stop_byte [OF f inp] show ?thesis by simp
    next
      case True
      with fill_ports_stop_byte [OF f inp] have "i1 = 0" "set (stdin h1) \<subseteq> set (stdin h)"
        by simp_all
      with 1(1) [OF l] True show ?thesis by auto
    qed
  qed
qed

lemma main_returns_iff:
  "(\<exists>r. main step top0 argv inp = Some r) \<longleftrightarrow> (\<exists>b\<in>set inp. stop b)"
proof
  assume "\<exists>r. main step top0 argv inp = Some r"
  then obtain c h where "main_loop step c 0 (tb_init top0 inp) = Some h"
    by (auto simp: main_def Let_def bind_eq_Some_conv)
  from main_loop_needs_stop [OF this] show "\<exists>b\<in>set inp. stop b" by simp
next
  assume "\<exists>b\<in>set inp. stop b"
  then have "\<exists>b\<in>set (stdin (tb_init top0 inp)). stop b" by simp
  from main_loop_terminates [OF this, of 0 step "if 1 < length argv then 1 else 0"]
  show "\<exists>r. main step top0 argv inp = Some r" by (auto simp: main_def Let_def)
qed

lemma main_exit_code: "main step top0 argv inp = Some r \<Longrightarrow> exit_code r = 0"
  by (auto simp: main_def Let_def bind_eq_Some_conv split: if_splits)

text \<open>
  C1. The claim: when the input stream is exhausted, \<^verbatim>\<open>viterbi_getc_value\<close> returns the
  status \<open>-1\<close> and the run ends with exit code 0. On the exhausted stream \<^verbatim>\<open>getchar\<close>
  returns \<^verbatim>\<open>EOF\<close>, which is \<open>-1\<close> and so passes the test \<^verbatim>\<open>c <= 32\<close> of the whitespace branch:
  the loop reads again, for ever. The call never returns, and neither does \<^verbatim>\<open>main\<close>.
\<close>

theorem viterbi_getc_value_exhausted:
  "viterbi_getc_value val [] = None \<and> main step top0 argv [] = None"
  by (simp add: getc_Nil main_def tb_init_def main_loop_hang fill_ports_none)

text \<open>A design whose \<open>step\<close> leaves the two input ports alone keeps them over any ticks.\<close>

lemma half_tick_inputs:
  assumes "\<And>d. p_x0 (step d) = p_x0 d \<and> p_x1 (step d) = p_x1 d"
  shows "p_x0 (dut (clock_tb step l h)) = p_x0 (dut h) \<and> p_x1 (dut (clock_tb step l h)) = p_x1 (dut h)"
  by (simp add: clock_tb_def half_tick_unfold assms)

lemma full_tick_inputs:
  assumes "\<And>d. p_x0 (step d) = p_x0 d \<and> p_x1 (step d) = p_x1 d"
  shows "p_x0 (dut (full_tick step c h)) = p_x0 (dut h) \<and> p_x1 (dut (full_tick step c h)) = p_x1 (dut h)"
  by (simp add: full_tick_def Let_def half_tick_inputs [OF assms])

lemma full_ticks_inputs:
  assumes "\<And>d. p_x0 (step d) = p_x0 d \<and> p_x1 (step d) = p_x1 d"
  shows "p_x0 (dut ((full_tick step c ^^ n) h)) = p_x0 (dut h) \<and>
         p_x1 (dut ((full_tick step c ^^ n) h)) = p_x1 (dut h)"
  by (induction n) (simp_all add: full_tick_inputs [OF assms])

lemma toy_step_inputs: "p_x0 (toy_step d) = p_x0 d \<and> p_x1 (toy_step d) = p_x1 d"
  by (simp add: toy_step_def)

lemma toy_full_tick:
  "internal (dut (full_tick toy_step c h)) = internal (dut h) + 4 * unat (p_x0 (dut h))"
  by (simp add: full_tick_def Let_def clock_tb_def toy_half_tick)

lemma toy_full_ticks:
  "internal (dut ((full_tick toy_step c ^^ n) h)) = internal (dut h) + 4 * n * unat (p_x0 (dut h))"
proof (induction n)
  case 0
  show ?case by simp
next
  case (Suc n)
  have "p_x0 (dut ((full_tick toy_step c ^^ n) h)) = p_x0 (dut h)"
    using full_ticks_inputs [where step = toy_step and c = c and n = n and h = h] toy_step_inputs by simp
  with Suc show ?case by (simp add: toy_full_tick algebra_simps)
qed

lemma toy_full_tick_cout:
  "cout (full_tick toy_step c h) =
     cout h @ decimal (unat (ucast (p_x0 (dut h)) + ucast (p_x1 (dut h)) :: 8 word)) @ [CHR 0x0A]"
  by (simp add: full_tick_def Let_def clock_tb_def toy_half_tick endl_def)

lemma toy_full_ticks_cout:
  "cout ((full_tick toy_step c ^^ n) h) =
     cout h @ concat (replicate n
       (decimal (unat (ucast (p_x0 (dut h)) + ucast (p_x1 (dut h)) :: 8 word)) @ [CHR 0x0A]))"
proof (induction n)
  case 0
  show ?case by simp
next
  case (Suc n)
  let ?x = "decimal (unat (ucast (p_x0 (dut h)) + ucast (p_x1 (dut h)) :: 8 word)) @ [CHR 0x0A]"
  have p: "p_x0 (dut ((full_tick toy_step c ^^ n) h)) = p_x0 (dut h)"
    "p_x1 (dut ((full_tick toy_step c ^^ n) h)) = p_x1 (dut h)"
    using full_ticks_inputs [where step = toy_step and c = c and n = n and h = h] toy_step_inputs
    by simp_all
  have "concat (replicate (Suc n) ?x) = concat (replicate n ?x @ [?x])"
    by (simp only: replicate_append_same replicate_Suc)
  also have "\<dots> = concat (replicate n ?x) @ ?x" by simp
  finally have c: "concat (replicate (Suc n) ?x) = concat (replicate n ?x) @ ?x" .
  have "cout ((full_tick toy_step c ^^ Suc n) h) = cout ((full_tick toy_step c ^^ n) h) @ ?x"
    by (simp add: toy_full_tick_cout p)
  also have "\<dots> = cout h @ concat (replicate n ?x) @ ?x" by (simp add: Suc)
  finally show ?case by (simp only: c)
qed

lemma toy_fill_1bang:
  "fill_ports 0 (tb_init toy_top ''1!'') =
     Some (0, (tb_init toy_top [])\<lparr>dut := toy_top\<lparr>p_x0 := 1\<rparr>, input := - 1\<rparr>)"
  by (simp add: fill_ports_def tb_init_def getc_Cons digit_def lower_def blank_def value_set_def
      toy_top_def)

lemma toy_run_1bang:
  "main_loop toy_step c 0 (tb_init toy_top ''1!'') =
     Some ((full_tick toy_step c ^^ 256) ((tb_init toy_top [])\<lparr>dut := toy_top\<lparr>p_x0 := 1\<rparr>, input := - 1\<rparr>))"
  using main_loop_after_fill [OF _ toy_fill_1bang, of toy_step c] by simp

lemma toy_fill_bang:
  "fill_ports 0 (tb_init toy_top ''!'') = Some (0, (tb_init toy_top [])\<lparr>input := - 1\<rparr>)"
  by (simp add: fill_ports_def tb_init_def getc_Cons digit_def lower_def blank_def toy_top_def)

lemma toy_run_bang:
  "main_loop toy_step c 0 (tb_init toy_top ''!'') =
     Some ((full_tick toy_step c ^^ 256) ((tb_init toy_top [])\<lparr>input := - 1\<rparr>))"
  using main_loop_after_fill [OF _ toy_fill_bang, of toy_step c] by simp

lemma main_no_capture:
  "main_loop step 0 0 (tb_init top0 inp) = Some h \<Longrightarrow>
   main step top0 [] inp = Some \<lparr>exit_code = 0, final = h, outfile = None\<rparr>"
  by (simp add: main_def)

lemma main_capture:
  "main_loop step 1 0 (tb_init top0 inp) = Some h \<Longrightarrow>
   main step top0 [prog, path] inp =
     Some \<lparr>exit_code = 0, final = h\<lparr>cout := cout h @ ''Writing '' @ path @ endl\<rparr>,
           outfile = Some (path, w h)\<rparr>"
  by (simp add: main_def)

text \<open>
  C10. Let a loop body with counter \<open>i\<close> fill the ports and leave \<open>input\<close> different from 0
  (a call of \<^verbatim>\<open>viterbi_getc_value\<close> has returned \<open>-1\<close>), with counter \<open>i'\<close> after the filling.
  Then the loop returns, and the rest of the run is exactly \<open>256 - i'\<close> full ticks on that
  state: the input stream is not read again, and if the design does not drive its own input
  ports then \<open>x0\<close> and \<open>x1\<close> keep the last values written. Each of these ticks, on whatever
  state \<open>g\<close> it starts, is two half-ticks: the external clock at 0 and then at 1, each time
  two advances of the design with the testbench-domain clock set to 0 between them and to 1
  after them, each followed by the output check, which prints the data output and a newline
  when the validity flag is 1; with capture on, one sample is taken before each half-tick.
\<close>

theorem stopped_loop_only_ticks:
  assumes "i < 256" and "fill_ports i h = Some (i', h')" and "input h' \<noteq> 0"
  shows "main_loop step c i h = Some ((full_tick step c ^^ nat (256 - i')) h') \<and>
         stdin ((full_tick step c ^^ nat (256 - i')) h') = stdin h' \<and>
         ticks ((full_tick step c ^^ nat (256 - i')) h') = ticks h' + nat (256 - i') \<and>
         length (w ((full_tick step c ^^ nat (256 - i')) h')) =
           length (w h') + (if c = 1 then 2 * nat (256 - i') else 0) \<and>
         ((\<forall>d. p_x0 (step d) = p_x0 d \<and> p_x1 (step d) = p_x1 d) \<longrightarrow>
            p_x0 (dut ((full_tick step c ^^ nat (256 - i')) h')) = p_x0 (dut h') \<and>
            p_x1 (dut ((full_tick step c ^^ nat (256 - i')) h')) = p_x1 (dut h')) \<and>
         full_tick step c g =
           (let d0 = (step ((step ((dut g)\<lparr>p_clk := 0\<rparr>))\<lparr>p_sync__tb__clk := 0\<rparr>))\<lparr>p_sync__tb__clk := 1\<rparr>;
                d1 = (step ((step (d0\<lparr>p_clk := 1\<rparr>))\<lparr>p_sync__tb__clk := 0\<rparr>))\<lparr>p_sync__tb__clk := 1\<rparr>;
                o0 = (if value_get (p_data__valid d0) = 1
                      then decimal (unat (value_get (p_data d0))) @ [CHR 0x0A] else []);
                o1 = (if value_get (p_data__valid d1) = 1
                      then decimal (unat (value_get (p_data d1))) @ [CHR 0x0A] else [])
            in g\<lparr>dut := d1,
                 w := w g @ (if c = 1 then [(j g, dut g), (j g + 1, d0)] else []),
                 j := j g + (if c = 1 then 2 else 0),
                 cout := cout g @ o0 @ o1,
                 ticks := ticks g + 1\<rparr>)"
proof -
  have a: "main_loop step c i h = Some ((full_tick step c ^^ nat (256 - i')) h')"
    using assms by (rule main_loop_after_fill)
  have b: "(\<forall>d. p_x0 (step d) = p_x0 d \<and> p_x1 (step d) = p_x1 d) \<longrightarrow>
            p_x0 (dut ((full_tick step c ^^ nat (256 - i')) h')) = p_x0 (dut h') \<and>
            p_x1 (dut ((full_tick step c ^^ nat (256 - i')) h')) = p_x1 (dut h')"
    using full_ticks_inputs [where step = step and c = c and n = "nat (256 - i')" and h = h']
    by simp
  from a b full_tick_explicit [of step c g] show ?thesis by simp
qed

theorem stopped_loop_only_ticks_witness:
  "main_loop toy_step 1 0 (tb_init toy_top ''1!'') =
     Some ((full_tick toy_step 1 ^^ 256) ((tb_init toy_top [])\<lparr>dut := toy_top\<lparr>p_x0 := 1\<rparr>, input := - 1\<rparr>)) \<and>
   stdin ((full_tick toy_step 1 ^^ 256) ((tb_init toy_top [])\<lparr>dut := toy_top\<lparr>p_x0 := 1\<rparr>, input := - 1\<rparr>)) = [] \<and>
   ticks ((full_tick toy_step 1 ^^ 256) ((tb_init toy_top [])\<lparr>dut := toy_top\<lparr>p_x0 := 1\<rparr>, input := - 1\<rparr>)) = 256 \<and>
   length (w ((full_tick toy_step 1 ^^ 256) ((tb_init toy_top [])\<lparr>dut := toy_top\<lparr>p_x0 := 1\<rparr>, input := - 1\<rparr>))) = 512 \<and>
   p_x0 (dut ((full_tick toy_step 1 ^^ 256) ((tb_init toy_top [])\<lparr>dut := toy_top\<lparr>p_x0 := 1\<rparr>, input := - 1\<rparr>))) = 1 \<and>
   internal (dut ((full_tick toy_step 1 ^^ 256) ((tb_init toy_top [])\<lparr>dut := toy_top\<lparr>p_x0 := 1\<rparr>, input := - 1\<rparr>))) = 1024 \<and>
   cout ((full_tick toy_step 1 ^^ 256) ((tb_init toy_top [])\<lparr>dut := toy_top\<lparr>p_x0 := 1\<rparr>, input := - 1\<rparr>)) =
     concat (replicate 256 [CHR ''1'', CHR 0x0A]) \<and>
   cout (full_tick toy_step 1 ((tb_init toy_top [])\<lparr>dut := toy_top\<lparr>p_x0 := 1\<rparr>, input := - 1\<rparr>)) =
     [CHR ''1'', CHR 0x0A] \<and>
   map fst (w (full_tick toy_step 1 ((tb_init toy_top [])\<lparr>dut := toy_top\<lparr>p_x0 := 1\<rparr>, input := - 1\<rparr>))) =
     [0, 1]"
proof -
  let ?h = "(tb_init toy_top [])\<lparr>dut := toy_top\<lparr>p_x0 := 1\<rparr>, input := - 1\<rparr>"
  have a: "(0::int) < 256" by simp
  have b: "input ?h \<noteq> 0" by simp
  note t = stopped_loop_only_ticks [OF a toy_fill_1bang b, of toy_step 1 ?h]
  have i: "internal (dut ((full_tick toy_step 1 ^^ 256) ?h)) = 1024"
    by (simp add: toy_full_ticks toy_top_def)
  have o: "cout ((full_tick toy_step 1 ^^ 256) ?h) = concat (replicate 256 [CHR ''1'', CHR 0x0A])"
    by (simp only: toy_full_ticks_cout) (simp add: toy_top_def decimal_small)
  from t have e: "full_tick toy_step 1 ?h =
           (let d0 = (toy_step ((toy_step ((dut ?h)\<lparr>p_clk := 0\<rparr>))\<lparr>p_sync__tb__clk := 0\<rparr>))\<lparr>p_sync__tb__clk := 1\<rparr>;
                d1 = (toy_step ((toy_step (d0\<lparr>p_clk := 1\<rparr>))\<lparr>p_sync__tb__clk := 0\<rparr>))\<lparr>p_sync__tb__clk := 1\<rparr>;
                o0 = (if value_get (p_data__valid d0) = 1
                      then decimal (unat (value_get (p_data d0))) @ [CHR 0x0A] else []);
                o1 = (if value_get (p_data__valid d1) = 1
                      then decimal (unat (value_get (p_data d1))) @ [CHR 0x0A] else [])
            in ?h\<lparr>dut := d1,
                 w := w ?h @ (if (1::int) = 1 then [(j ?h, dut ?h), (j ?h + 1, d0)] else []),
                 j := j ?h + (if (1::int) = 1 then 2 else 0),
                 cout := cout ?h @ o0 @ o1,
                 ticks := ticks ?h + 1\<rparr>)"
    by blast
  have o1: "cout (full_tick toy_step 1 ?h) = [CHR ''1'', CHR 0x0A]"
    by (simp only: e) (simp add: Let_def toy_step_def toy_top_def value_get_eq_1 unat_value_get
        decimal_small)
  have w1: "map fst (w (full_tick toy_step 1 ?h)) = [0, 1]"
    by (simp only: e) (simp add: Let_def)
  from t toy_step_inputs i o o1 w1 show ?thesis by simp
qed

text \<open>
  C4, as the program has it. If the call for \<open>x0\<close> returns 0 and the call for \<open>x1\<close> returns
  \<open>-1\<close>, the counter has been set back to 0 and the loop runs 256 full ticks with the new
  value on \<open>x0\<close> and the old value on \<open>x1\<close>; no further input is read.
\<close>

theorem half_filled_pair_is_clocked:
  assumes "i < 256" and "input h = 0"
    and "viterbi_getc_value (p_x0 (dut h)) (stdin h) = Some (0, v0, s0)"
    and "viterbi_getc_value (p_x1 (dut h)) s0 = Some (- 1, v1, s1)"
  shows "main_loop step c i h =
           Some ((full_tick step c ^^ 256) (h\<lparr>dut := (dut h)\<lparr>p_x0 := v0\<rparr>, input := - 1, stdin := s1\<rparr>))"
proof -
  from getc_stop_keeps [OF assms(4)] have v1: "v1 = p_x1 (dut h)" by simp
  have f: "fill_ports i h =
      Some (0, h\<lparr>dut := (dut h)\<lparr>p_x0 := v0\<rparr>, input := - 1, stdin := s1\<rparr>)"
    using fill_ports_x1 [OF assms(2,3,4), of i] by (simp add: v1)
  from main_loop_after_fill [OF assms(1) f, of step c] show ?thesis by simp
qed

theorem half_filled_pair_is_clocked_witness:
  "main_loop toy_step 0 0 (tb_init toy_top ''1!'') =
     Some ((full_tick toy_step 0 ^^ 256)
       ((tb_init toy_top ''1!'')\<lparr>dut := toy_top\<lparr>p_x0 := 1\<rparr>, input := - 1, stdin := []\<rparr>))"
proof -
  let ?h = "tb_init toy_top ''1!''"
  have a: "(0::int) < 256" and b: "input ?h = 0" by simp_all
  have c: "viterbi_getc_value (p_x0 (dut ?h)) (stdin ?h) = Some (0, 1, ''!'')"
    by (simp add: getc_Cons digit_def value_set_def)
  have d: "viterbi_getc_value (p_x1 (dut ?h)) ''!'' = Some (- 1, 0, [])"
    by (simp add: getc_Cons digit_def lower_def blank_def toy_top_def)
  from half_filled_pair_is_clocked [OF a b c d, of toy_step 0] show ?thesis by simp
qed

text \<open>
  The claim C4 as stated says that no tick executes with the new value of \<open>x0\<close>. On the input
  \<^verbatim>\<open>1!\<close> the small design starts with 0 on \<open>x0\<close> and a private counter of 0; the run ends
  after 256 ticks with the counter at 1024: all 1024 advances saw the value 1 on \<open>x0\<close>.
\<close>

theorem half_filled_pair_counterexample:
  "map_option (internal \<circ> dut \<circ> final) (main toy_step toy_top [] ''1!'') = Some 1024 \<and>
   map_option (ticks \<circ> final) (main toy_step toy_top [] ''1!'') = Some 256 \<and>
   internal toy_top = 0 \<and> p_x0 toy_top = 0"
proof -
  let ?h = "(tb_init toy_top [])\<lparr>dut := toy_top\<lparr>p_x0 := 1\<rparr>, input := - 1\<rparr>"
  have "main toy_step toy_top [] ''1!'' =
      Some \<lparr>exit_code = 0, final = (full_tick toy_step 0 ^^ 256) ?h, outfile = None\<rparr>"
    using toy_run_1bang [of 0] by (rule main_no_capture)
  moreover have "internal (dut ((full_tick toy_step 0 ^^ 256) ?h)) = 1024"
    by (simp add: toy_full_ticks toy_top_def)
  moreover have "ticks ((full_tick toy_step 0 ^^ 256) ?h) = 256" by simp
  ultimately show ?thesis by (simp add: toy_top_def)
qed

text \<open>The number of samples is tied to the number of ticks all through the loop.\<close>

lemma full_tick_samples:
  "length (w h) = (if c = 1 then 2 else 0) * ticks h \<Longrightarrow>
   length (w (full_tick step c h)) = (if c = 1 then 2 else 0) * ticks (full_tick step c h)"
  by simp

lemma main_loop_samples:
  assumes "main_loop step c i h = Some h'"
  shows "length (w h) = (if c = 1 then 2 else 0) * ticks h \<longrightarrow>
         length (w h') = (if c = 1 then 2 else 0) * ticks h'"
proof (rule main_loop.raw_induct [OF _ assms], goal_cases)
  case (1 loop step c i h y)
  show ?case
  proof (cases "i < 256")
    case False
    with 1(2) show ?thesis by simp
  next
    case True
    with 1(2) obtain i1 h1 where f: "fill_ports i h = Some (i1, h1)"
      and l: "loop step c (i1 + 1) (full_tick step c h1) = Some y"
      by (auto simp: bind_eq_Some_conv)
    from fill_ports_fields [OF f] have "w h1 = w h" "ticks h1 = ticks h" by simp_all
    with 1(1) [OF l] full_tick_samples [of h1 c step] show ?thesis by simp
  qed
qed

text \<open>
  C3, as the program has it. With capture on (an argument is given) the number of samples of
  a whole run is twice the number of full ticks: one sample before each half-tick. With
  capture off there is no sample.
\<close>

theorem trace_samples_two_per_tick:
  assumes "main step top0 argv inp = Some r"
  shows "length (w (final r)) = (if 1 < length argv then 2 else 0) * ticks (final r)"
proof -
  let ?c = "if 1 < length argv then 1 else 0 :: int"
  from assms obtain h where l: "main_loop step ?c 0 (tb_init top0 inp) = Some h"
    and r: "w (final r) = w h" "ticks (final r) = ticks h"
    by (auto simp: main_def Let_def bind_eq_Some_conv split: if_splits)
  from main_loop_samples [OF l] have "length (w h) = (if ?c = 1 then 2 else 0) * ticks h"
    by simp
  with r show ?thesis by (simp split: if_splits)
qed

theorem trace_samples_two_per_tick_witness:
  "\<exists>r. main toy_step toy_top [''tb'', ''out.vcd''] ''!'' = Some r \<and>
       length (w (final r)) = 2 * ticks (final r) \<and> ticks (final r) = 256"
proof -
  let ?h = "(full_tick toy_step 1 ^^ 256) ((tb_init toy_top [])\<lparr>input := - 1\<rparr>)"
  let ?r = "\<lparr>exit_code = 0, final = ?h\<lparr>cout := cout ?h @ ''Writing '' @ ''out.vcd'' @ endl\<rparr>,
           outfile = Some (''out.vcd'', w ?h)\<rparr>"
  have m: "main toy_step toy_top [''tb'', ''out.vcd''] ''!'' = Some ?r"
    using toy_run_bang [of 1] by (rule main_capture)
  from trace_samples_two_per_tick [OF m] have "length (w (final ?r)) = 2 * ticks (final ?r)"
    by simp
  moreover have "ticks (final ?r) = 256" by simp
  ultimately show ?thesis using m by blast
qed

text \<open>
  The claim C3 as stated has four samples per full tick. The run on the input \<^verbatim>\<open>!\<close> with
  capture on executes 256 full ticks and takes 512 samples, not 1024.
\<close>

theorem trace_samples_counterexample:
  "map_option (length \<circ> w \<circ> final) (main toy_step toy_top [''tb'', ''out.vcd''] ''!'') = Some 512 \<and>
   map_option (ticks \<circ> final) (main toy_step toy_top [''tb'', ''out.vcd''] ''!'') = Some 256"
proof -
  let ?h = "(full_tick toy_step 1 ^^ 256) ((tb_init toy_top [])\<lparr>input := - 1\<rparr>)"
  have "main toy_step toy_top [''tb'', ''out.vcd''] ''!'' =
      Some \<lparr>exit_code = 0, final = ?h\<lparr>cout := cout ?h @ ''Writing '' @ ''out.vcd'' @ endl\<rparr>,
           outfile = Some (''out.vcd'', w ?h)\<rparr>"
    using toy_run_bang [of 1] by (rule main_capture)
  then show ?thesis by simp
qed

text \<open>
  C2. The claim: on the input \<^verbatim>\<open>12\<close> the ports are filled with 1 and 2, one full tick
  executes, the refill attempt finds the end of the input and the program terminates. The
  program fills \<open>x0\<close> with 1 and \<open>x1\<close> with 2 and sets the counter back to 0; the full tick
  that follows is written out below (four advances, two output checks, two samples with
  capture on); the loop goes on with counter 1 on that state and on whatever input \<open>rest\<close>
  follows the two bytes; with nothing following, the next loop body attempts the refill on
  the exhausted input, and that call never returns. So neither the loop nor \<^verbatim>\<open>main\<close>
  returns, for any design and any arguments.
\<close>

theorem input_12_never_returns:
  "fill_ports 0 (tb_init top0 ''12'') =
     Some (0, (tb_init top0 [])\<lparr>dut := top0\<lparr>p_x0 := 1, p_x1 := 2\<rparr>\<rparr>) \<and>
   full_tick step c ((tb_init top0 [])\<lparr>dut := top0\<lparr>p_x0 := 1, p_x1 := 2\<rparr>\<rparr>) =
     (let x = top0\<lparr>p_x0 := 1, p_x1 := 2\<rparr>;
          d0 = (step ((step (x\<lparr>p_clk := 0\<rparr>))\<lparr>p_sync__tb__clk := 0\<rparr>))\<lparr>p_sync__tb__clk := 1\<rparr>;
          d1 = (step ((step (d0\<lparr>p_clk := 1\<rparr>))\<lparr>p_sync__tb__clk := 0\<rparr>))\<lparr>p_sync__tb__clk := 1\<rparr>;
          o0 = (if value_get (p_data__valid d0) = 1
                then decimal (unat (value_get (p_data d0))) @ [CHR 0x0A] else []);
          o1 = (if value_get (p_data__valid d1) = 1
                then decimal (unat (value_get (p_data d1))) @ [CHR 0x0A] else [])
      in \<lparr>dut = d1, w = (if c = 1 then [(0, x), (1, d0)] else []),
          j = (if c = 1 then 2 else 0), input = 0, stdin = [], cout = o0 @ o1, ticks = 1\<rparr>) \<and>
   main_loop step c 0 (tb_init top0 (''12'' @ rest)) =
     main_loop step c 1
       (full_tick step c ((tb_init top0 rest)\<lparr>dut := top0\<lparr>p_x0 := 1, p_x1 := 2\<rparr>\<rparr>)) \<and>
   fill_ports 1 (full_tick step c ((tb_init top0 [])\<lparr>dut := top0\<lparr>p_x0 := 1, p_x1 := 2\<rparr>\<rparr>)) = None \<and>
   main_loop step c 0 (tb_init top0 ''12'') = None \<and>
   main step top0 argv ''12'' = None"
proof -
  let ?h = "(tb_init top0 [])\<lparr>dut := top0\<lparr>p_x0 := 1, p_x1 := 2\<rparr>\<rparr>"
  have f: "fill_ports 0 (tb_init top0 ''12'') = Some (0, ?h)"
    by (simp add: fill_ports_def tb_init_def getc_Cons digit_def value_set_def)
  have t: "full_tick step c ?h =
     (let x = top0\<lparr>p_x0 := 1, p_x1 := 2\<rparr>;
          d0 = (step ((step (x\<lparr>p_clk := 0\<rparr>))\<lparr>p_sync__tb__clk := 0\<rparr>))\<lparr>p_sync__tb__clk := 1\<rparr>;
          d1 = (step ((step (d0\<lparr>p_clk := 1\<rparr>))\<lparr>p_sync__tb__clk := 0\<rparr>))\<lparr>p_sync__tb__clk := 1\<rparr>;
          o0 = (if value_get (p_data__valid d0) = 1
                then decimal (unat (value_get (p_data d0))) @ [CHR 0x0A] else []);
          o1 = (if value_get (p_data__valid d1) = 1
                then decimal (unat (value_get (p_data d1))) @ [CHR 0x0A] else [])
      in \<lparr>dut = d1, w = (if c = 1 then [(0, x), (1, d0)] else []),
          j = (if c = 1 then 2 else 0), input = 0, stdin = [], cout = o0 @ o1, ticks = 1\<rparr>)"
    by (simp only: full_tick_explicit) (simp add: Let_def tb_init_def)
  have f': "fill_ports 0 (tb_init top0 (''12'' @ rest)) =
      Some (0, (tb_init top0 rest)\<lparr>dut := top0\<lparr>p_x0 := 1, p_x1 := 2\<rparr>\<rparr>)"
    by (simp add: fill_ports_def tb_init_def getc_Cons digit_def value_set_def)
  have g: "main_loop step c 0 (tb_init top0 (''12'' @ rest)) =
      main_loop step c 1
        (full_tick step c ((tb_init top0 rest)\<lparr>dut := top0\<lparr>p_x0 := 1, p_x1 := 2\<rparr>\<rparr>))"
    using main_loop_body [OF _ f', of step c] by simp
  have l: "main_loop step c 0 (tb_init top0 ''12'') = main_loop step c 1 (full_tick step c ?h)"
    using main_loop_body [OF _ f, of step c] by simp
  have n: "fill_ports 1 (full_tick step c ?h) = None"
    by (simp add: fill_ports_none getc_Nil)
  have "main_loop step c 1 (full_tick step c ?h) = None"
    using main_loop_hang [OF _ n, of step c] by simp
  with l have m: "main_loop step c 0 (tb_init top0 ''12'') = None" by simp
  have a: "main step top0 argv ''12'' = None"
    by (simp add: main_def Let_def main_loop_hang fill_ports_none getc_Nil
        main_loop_body [OF _ f])
  from f t g n m a show ?thesis by (simp only: simp_thms)
qed

end
